theory Spec2Isabelle
  imports Complex_Main "HOL-Library.Word" "HOL-Library.Finite_Map" "HOL-Library.Sublist"
begin

unbundle bit_operations_syntax

section \<open>Typed metadata values (Constraints.h)\<close>

text \<open>
  \<^verbatim>\<open>enum class MetadataType { Bool, Int, Float, Str, Nil };\<close>
  The enumerators carry a prefix here, since \<open>Int\<close> and \<open>Nil\<close> are taken in HOL.
\<close>

datatype MetadataType = Type_Bool | Type_Int | Type_Float | Type_Str | Type_Nil

text \<open>
  \<^verbatim>\<open>std::variant<bool, int, float, std::string> _value;\<close>
  The alternatives in declaration order. An \<open>int\<close> is a 32-bit two's complement word. A
  \<open>float\<close> is kept as its IEEE-754 binary32 bit pattern, and a \<open>std::string\<close> as its
  bytes.
\<close>

datatype variant =
    V_bool bool
  | V_int "32 word"
  | V_float "32 word"
  | V_string string

fun index :: "variant \<Rightarrow> nat" where
  "index (V_bool _) = 0"
| "index (V_int _) = 1"
| "index (V_float _) = 2"
| "index (V_string _) = 3"

subsection \<open>The comparisons of the alternatives\<close>

text \<open>
  Comparison of two \<open>float\<close>s: a NaN (exponent all ones, fraction not zero) compares
  false with everything; otherwise the sign-magnitude reading orders the values, with
  \<open>+0\<close> and \<open>-0\<close> equal.
\<close>

definition float_isnan :: "32 word \<Rightarrow> bool" where
  "float_isnan f = (0x7F800000 < unat (f AND 0x7FFFFFFF))"

definition float_key :: "32 word \<Rightarrow> int" where
  "float_key f =
     (if f AND 0x80000000 = 0 then uint (f AND 0x7FFFFFFF) else - uint (f AND 0x7FFFFFFF))"

definition float_eq :: "32 word \<Rightarrow> 32 word \<Rightarrow> bool" where
  "float_eq a b = (\<not> float_isnan a \<and> \<not> float_isnan b \<and> float_key a = float_key b)"

definition float_less :: "32 word \<Rightarrow> 32 word \<Rightarrow> bool" where
  "float_less a b = (\<not> float_isnan a \<and> \<not> float_isnan b \<and> float_key a < float_key b)"

text \<open>
  The number a binary32 pattern denotes, for comparison with the above. Bit 31 is the
  sign, bits 30 to 23 the biased exponent \<open>e\<close>, bits 22 to 0 the fraction \<open>m\<close>. With
  \<open>e = 255\<close> the pattern is an infinity (\<open>m = 0\<close>) or a NaN; with \<open>e = 0\<close> it denotes
  \<open>\<plusminus> (m / 2^23) * 2^-126\<close>, and otherwise \<open>\<plusminus> (1 + m / 2^23) * 2^(e - 127)\<close>.
\<close>

datatype ieee_value = NaN | Minus_infinity | Finite real | Plus_infinity

definition float_sign :: "32 word \<Rightarrow> bool" where
  "float_sign f = bit f 31"

definition float_exponent :: "32 word \<Rightarrow> nat" where
  "float_exponent f = unat (take_bit 8 (drop_bit 23 f))"

definition float_fraction :: "32 word \<Rightarrow> nat" where
  "float_fraction f = unat (take_bit 23 f)"

definition float_decode :: "32 word \<Rightarrow> ieee_value" where
  "float_decode f =
     (let s = float_sign f; e = float_exponent f; m = float_fraction f
      in if e = 255 then
           (if m \<noteq> 0 then NaN else if s then Minus_infinity else Plus_infinity)
         else if e = 0 then
           Finite ((if s then - 1 else 1) * (real m / 2 ^ 23) / 2 ^ 126)
         else
           Finite ((if s then - 1 else 1) * (1 + real m / 2 ^ 23) * 2 ^ e / 2 ^ 127))"

text \<open>
  The order and the equality of the denoted values: a NaN is neither below, above nor
  equal to anything, the infinities lie outside all numbers, and numbers compare as
  reals (so \<open>+0\<close> and \<open>-0\<close> are equal).
\<close>

fun ieee_less :: "ieee_value \<Rightarrow> ieee_value \<Rightarrow> bool" where
  "ieee_less NaN _ = False"
| "ieee_less _ NaN = False"
| "ieee_less Minus_infinity Minus_infinity = False"
| "ieee_less Minus_infinity _ = True"
| "ieee_less (Finite a) (Finite b) = (a < b)"
| "ieee_less (Finite _) Plus_infinity = True"
| "ieee_less (Finite _) Minus_infinity = False"
| "ieee_less Plus_infinity _ = False"

fun ieee_eq :: "ieee_value \<Rightarrow> ieee_value \<Rightarrow> bool" where
  "ieee_eq NaN _ = False"
| "ieee_eq _ NaN = False"
| "ieee_eq (Finite a) (Finite b) = (a = b)"
| "ieee_eq Minus_infinity Minus_infinity = True"
| "ieee_eq Plus_infinity Plus_infinity = True"
| "ieee_eq _ _ = False"

text \<open>
  For the proofs: the magnitude of a pattern in units of \<open>2^-149\<close> as a function of its
  low 31 bits, the same with the sign, and the magnitude that stands for infinity.
\<close>

definition float_scaled :: "nat \<Rightarrow> nat" where
  "float_scaled n =
     (if n div 2 ^ 23 = 0 then n mod 2 ^ 23
      else (2 ^ 23 + n mod 2 ^ 23) * 2 ^ (n div 2 ^ 23 - 1))"

definition float_signed :: "32 word \<Rightarrow> int" where
  "float_signed f =
     (if float_sign f then - int (float_scaled (unat (f AND 0x7FFFFFFF)))
      else int (float_scaled (unat (f AND 0x7FFFFFFF))))"

definition float_infinity :: nat where
  "float_infinity = float_scaled (255 * 2 ^ 23)"

text \<open>
  \<^verbatim>\<open>std::char_traits<char>::compare\<close> on two buffers of the same length: the sign of the
  first difference, the bytes read as unsigned.
\<close>

fun traits_compare :: "string \<Rightarrow> string \<Rightarrow> int" where
  "traits_compare (a # as) (b # bs) =
     (if (of_char a :: nat) < of_char b then - 1
      else if (of_char b :: nat) < of_char a then 1
      else traits_compare as bs)"
| "traits_compare _ _ = 0"

text \<open>
  \<^verbatim>\<open>std::string::compare\<close>: the common prefix is compared first, and the lengths decide
  when it is equal.
\<close>

definition string_compare :: "string \<Rightarrow> string \<Rightarrow> int" where
  "string_compare s t =
     (let rlen = min (length s) (length t);
          r = traits_compare (take rlen s) (take rlen t)
      in if r \<noteq> 0 then r
         else if length s < length t then - 1
         else if length t < length s then 1
         else 0)"

definition string_eq :: "string \<Rightarrow> string \<Rightarrow> bool" where
  "string_eq s t = (length s = length t \<and> traits_compare s t = 0)"

definition string_less :: "string \<Rightarrow> string \<Rightarrow> bool" where
  "string_less s t = (string_compare s t < 0)"

definition string_greater :: "string \<Rightarrow> string \<Rightarrow> bool" where
  "string_greater s t = (0 < string_compare s t)"

text \<open>The order of two bytes, read as unsigned; strings are ordered by \<open>lexord\<close> of it.\<close>

definition byte_less :: "(char \<times> char) set" where
  "byte_less = {(a, b). (of_char a :: nat) < of_char b}"

text \<open>
  The relational operators of \<open>std::variant\<close>: \<open>==\<close> holds when both hold the same
  alternative and the held values are equal; \<open><\<close> and \<open>>\<close> order by the index of the
  alternative first and by the held values when the indices agree.
\<close>

fun variant_eq :: "variant \<Rightarrow> variant \<Rightarrow> bool" where
  "variant_eq (V_bool a) (V_bool b) = (a = b)"
| "variant_eq (V_int a) (V_int b) = (a = b)"
| "variant_eq (V_float a) (V_float b) = float_eq a b"
| "variant_eq (V_string a) (V_string b) = string_eq a b"
| "variant_eq _ _ = False"

fun held_less :: "variant \<Rightarrow> variant \<Rightarrow> bool" where
  "held_less (V_bool a) (V_bool b) = (\<not> a \<and> b)"
| "held_less (V_int a) (V_int b) = (a <s b)"
| "held_less (V_float a) (V_float b) = float_less a b"
| "held_less (V_string a) (V_string b) = string_less a b"
| "held_less _ _ = False"

fun held_greater :: "variant \<Rightarrow> variant \<Rightarrow> bool" where
  "held_greater (V_bool a) (V_bool b) = (a \<and> \<not> b)"
| "held_greater (V_int a) (V_int b) = (b <s a)"
| "held_greater (V_float a) (V_float b) = float_less b a"
| "held_greater (V_string a) (V_string b) = string_greater a b"
| "held_greater _ _ = False"

definition variant_less :: "variant \<Rightarrow> variant \<Rightarrow> bool" where
  "variant_less v w =
     (if index v < index w then True
      else if index w < index v then False
      else held_less v w)"

definition variant_greater :: "variant \<Rightarrow> variant \<Rightarrow> bool" where
  "variant_greater v w =
     (if index w < index v then True
      else if index v < index w then False
      else held_greater v w)"

subsection \<open>MetadataValue\<close>

record MetadataValue =
  type :: MetadataType
  "value" :: variant

text \<open>
  The default constructor sets the tag to \<open>Nil\<close> and leaves the variant
  value-initialised: its first alternative, \<open>false\<close>.
\<close>

definition MetadataValue_default :: MetadataValue where
  "MetadataValue_default = \<lparr>type = Type_Nil, value = V_bool False\<rparr>"

definition MetadataValue_Bool :: "bool \<Rightarrow> MetadataValue" where
  "MetadataValue_Bool b = \<lparr>type = Type_Bool, value = V_bool b\<rparr>"

definition MetadataValue_Int :: "32 word \<Rightarrow> MetadataValue" where
  "MetadataValue_Int i = \<lparr>type = Type_Int, value = V_int i\<rparr>"

definition MetadataValue_Float :: "32 word \<Rightarrow> MetadataValue" where
  "MetadataValue_Float f = \<lparr>type = Type_Float, value = V_float f\<rparr>"

definition MetadataValue_Str :: "string \<Rightarrow> MetadataValue" where
  "MetadataValue_Str s = \<lparr>type = Type_Str, value = V_string s\<rparr>"

text \<open>
  The two-argument constructor is private, so the five functions above are the only way
  to make a value. \<open>constructed\<close> holds of exactly their results.
\<close>

fun constructed_with :: "MetadataType \<Rightarrow> variant \<Rightarrow> bool" where
  "constructed_with Type_Bool (V_bool _) = True"
| "constructed_with Type_Int (V_int _) = True"
| "constructed_with Type_Float (V_float _) = True"
| "constructed_with Type_Str (V_string _) = True"
| "constructed_with Type_Nil (V_bool b) = (\<not> b)"
| "constructed_with _ _ = False"

definition constructed :: "MetadataValue \<Rightarrow> bool" where
  "constructed v = constructed_with (type v) (value v)"

datatype error =
    TypeMismatch MetadataType MetadataType
  | BadVariantAccess
  | OutOfRange
  | LengthError
  | InvalidArgument
  | EngineFailure

text \<open>
  \<open>checkType\<close> throws a \<open>std::runtime_error\<close> naming the stored and the expected tag;
  \<open>std::get\<close> throws \<open>std::bad_variant_access\<close> when the variant holds another
  alternative.
\<close>

definition checkType :: "MetadataValue \<Rightarrow> MetadataType \<Rightarrow> error + unit" where
  "checkType v expected =
     (if type v \<noteq> expected then Inl (TypeMismatch (type v) expected) else Inr ())"

definition asBool :: "MetadataValue \<Rightarrow> error + bool" where
  "asBool v =
     (case checkType v Type_Bool of
        Inl e \<Rightarrow> Inl e
      | Inr _ \<Rightarrow> (case value v of V_bool b \<Rightarrow> Inr b | _ \<Rightarrow> Inl BadVariantAccess))"

definition asInt :: "MetadataValue \<Rightarrow> error + 32 word" where
  "asInt v =
     (case checkType v Type_Int of
        Inl e \<Rightarrow> Inl e
      | Inr _ \<Rightarrow> (case value v of V_int i \<Rightarrow> Inr i | _ \<Rightarrow> Inl BadVariantAccess))"

definition asFloat :: "MetadataValue \<Rightarrow> error + 32 word" where
  "asFloat v =
     (case checkType v Type_Float of
        Inl e \<Rightarrow> Inl e
      | Inr _ \<Rightarrow> (case value v of V_float f \<Rightarrow> Inr f | _ \<Rightarrow> Inl BadVariantAccess))"

definition asStr :: "MetadataValue \<Rightarrow> error + string" where
  "asStr v =
     (case checkType v Type_Str of
        Inl e \<Rightarrow> Inl e
      | Inr _ \<Rightarrow> (case value v of V_string s \<Rightarrow> Inr s | _ \<Rightarrow> Inl BadVariantAccess))"

definition equals :: "MetadataValue \<Rightarrow> MetadataValue \<Rightarrow> bool" where
  "equals v other = (type v = type other \<and> variant_eq (value v) (value other))"

definition lessThan_value :: "MetadataValue \<Rightarrow> MetadataValue \<Rightarrow> bool" where
  "lessThan_value v other = (type v = type other \<and> variant_less (value v) (value other))"

definition greaterThan_value :: "MetadataValue \<Rightarrow> MetadataValue \<Rightarrow> bool" where
  "greaterThan_value v other =
     (type v = type other \<and> variant_greater (value v) (value other))"

text \<open>
  \<^verbatim>\<open>std::string::find(str)\<close> from position 0: the first position at which \<open>str\<close> starts,
  or \<open>npos\<close> (here \<open>None\<close>). The scan tries every position that leaves room for the
  needle.
\<close>

fun find_from :: "string \<Rightarrow> string \<Rightarrow> nat \<Rightarrow> nat option" where
  "find_from hay needle pos =
     (if length hay < length needle then None
      else if string_eq (take (length needle) hay) needle then Some pos
      else (case hay of [] \<Rightarrow> None | _ # rest \<Rightarrow> find_from rest needle (Suc pos)))"

definition find_str :: "string \<Rightarrow> string \<Rightarrow> nat option" where
  "find_str hay needle = find_from hay needle 0"

text \<open>
  \<open>&&\<close> evaluates its right operand only when the left one is true, so \<open>asStr\<close> is
  called only on two \<open>Str\<close>-tagged values.
\<close>

definition hasSubstring :: "MetadataValue \<Rightarrow> MetadataValue \<Rightarrow> error + bool" where
  "hasSubstring v other =
     (if type v = Type_Str \<and> type other = Type_Str then
        (case asStr v of
           Inl e \<Rightarrow> Inl e
         | Inr hay \<Rightarrow>
             (case asStr other of
                Inl e \<Rightarrow> Inl e
              | Inr needle \<Rightarrow> Inr (find_str hay needle \<noteq> None)))
      else Inr False)"

subsection \<open>Constraints\<close>

text \<open>
  The five final subclasses of \<open>Constraint\<close>, each with the operand it owns. The virtual
  \<open>matches\<close> is one function by cases on the subclass.
\<close>

datatype Constraint =
    EqualTo MetadataValue
  | Substring MetadataValue
  | AnyOf "MetadataValue list"
  | LessThan MetadataValue
  | GreaterThan MetadataValue

text \<open>\<^verbatim>\<open>std::any_of\<close>: the scan stops at the first element that satisfies the predicate.\<close>

fun any_of :: "('a \<Rightarrow> bool) \<Rightarrow> 'a list \<Rightarrow> bool" where
  "any_of p [] = False"
| "any_of p (x # xs) = (if p x then True else any_of p xs)"

fun Constraint_matches :: "Constraint \<Rightarrow> MetadataValue \<Rightarrow> error + bool" where
  "Constraint_matches (EqualTo own) v = Inr (equals own v)"
| "Constraint_matches (Substring own) v = hasSubstring v own"
| "Constraint_matches (AnyOf owns) v = Inr (any_of (\<lambda>x. equals v x) owns)"
| "Constraint_matches (LessThan own) v = Inr (lessThan_value v own)"
| "Constraint_matches (GreaterThan own) v = Inr (greaterThan_value v own)"

type_synonym MetadataMap = "(string, MetadataValue) fmap"

type_synonym QueryConstraints = "(string, Constraint) fmap"

text \<open>
  Modelled from the spec: the body of the top-level \<open>matches\<close>, which \<open>Constraints.h\<close>
  only declares. The spec: for every (key, constraint) pair in the constraints, the
  metadata map contains that key and \<open>constraint.matches(map[key])\<close> is true; a map
  lacking a constrained key fails the match.
\<close>

definition matches :: "QueryConstraints \<Rightarrow> MetadataMap \<Rightarrow> bool" where
  "matches constraints metadata =
     fmpred (\<lambda>key constraint.
               case fmlookup metadata key of
                 None \<Rightarrow> False
               | Some v \<Rightarrow> Constraint_matches constraint v = Inr True)
            constraints"

section \<open>The C binding (binding.cc)\<close>

text \<open>
  A handle is modelled by the object it points to, and a function that mutates through
  the handle returns the new object. \<open>MetadataValue_t\<close> only wraps a \<open>MetadataValue\<close>
  and is identified with it.
\<close>

definition MetadataValue_bool :: "bool \<Rightarrow> MetadataValue" where
  "MetadataValue_bool b = MetadataValue_Bool b"

definition MetadataValue_int :: "32 word \<Rightarrow> MetadataValue" where
  "MetadataValue_int i = MetadataValue_Int i"

definition MetadataValue_float :: "32 word \<Rightarrow> MetadataValue" where
  "MetadataValue_float f = MetadataValue_Float f"

definition MetadataValue_str :: "string \<Rightarrow> MetadataValue" where
  "MetadataValue_str s = MetadataValue_Str s"

subsection \<open>Constraints_t\<close>

record Constraints_t =
  constraints :: QueryConstraints

definition Constraints_new :: Constraints_t where
  "Constraints_new = \<lparr>constraints = fmempty\<rparr>"

definition BinaryConstraintEq :: int where "BinaryConstraintEq = 0"
definition BinaryConstraintLt :: int where "BinaryConstraintLt = 1"
definition BinaryConstraintGt :: int where "BinaryConstraintGt = 2"
definition BinaryConstraintSubstr :: int where "BinaryConstraintSubstr = 3"

text \<open>
  \<open>constraints[key] = c\<close> on the \<open>unordered_map\<close> is \<open>fmupd key c\<close>. The \<open>switch\<close> has
  no default: another \<open>op\<close> leaves the set as it is.
\<close>

definition Constraints_add_binary_constraint ::
    "Constraints_t \<Rightarrow> int \<Rightarrow> string \<Rightarrow> MetadataValue \<Rightarrow> Constraints_t" where
  "Constraints_add_binary_constraint c op key v =
     (if op = BinaryConstraintEq then
        c\<lparr>constraints := fmupd key (EqualTo v) (constraints c)\<rparr>
      else if op = BinaryConstraintLt then
        c\<lparr>constraints := fmupd key (LessThan v) (constraints c)\<rparr>
      else if op = BinaryConstraintGt then
        c\<lparr>constraints := fmupd key (GreaterThan v) (constraints c)\<rparr>
      else if op = BinaryConstraintSubstr then
        c\<lparr>constraints := fmupd key (Substring v) (constraints c)\<rparr>
      else c)"

text \<open>
  The loop \<^verbatim>\<open>for (int i = 0; i < n; ++i) value_vec.push_back(values[i]->value)\<close>, the
  array \<open>values\<close> given as the list of the values its entries point to; \<open>count\<close> is what
  is left of \<open>n - i\<close>. The array has no length in C: the caller passes at least \<open>n\<close>
  entries, and the model stops where the list ends.
\<close>

fun push_back_loop ::
    "MetadataValue list \<Rightarrow> nat \<Rightarrow> MetadataValue list \<Rightarrow> MetadataValue list" where
  "push_back_loop (v # rest) (Suc count) value_vec = push_back_loop rest count (value_vec @ [v])"
| "push_back_loop _ _ value_vec = value_vec"

text \<open>
  \<open>value_vec.reserve(n)\<close> converts a negative \<open>n\<close> to a \<open>size_t\<close> above \<open>max_size()\<close> and
  throws \<open>std::length_error\<close>, before the set is touched.
\<close>

definition Constraints_add_any_of_constraint ::
    "Constraints_t \<Rightarrow> string \<Rightarrow> MetadataValue list \<Rightarrow> int \<Rightarrow> error + Constraints_t" where
  "Constraints_add_any_of_constraint c key vals n =
     (if n < 0 then Inl LengthError
      else Inr (c\<lparr>constraints :=
                   fmupd key (AnyOf (push_back_loop vals (nat n) [])) (constraints c)\<rparr>))"

subsection \<open>Document_t\<close>

record Document_t =
  chunks :: "string list"
  metadata :: "MetadataMap list"
  document :: string
  doc_id :: string
  doc_version :: "32 word option"

definition Document_new :: "string \<Rightarrow> string \<Rightarrow> Document_t" where
  "Document_new name ident =
     \<lparr>chunks = [], metadata = [], document = name, doc_id = ident, doc_version = None\<rparr>"

definition Document_add_chunk :: "Document_t \<Rightarrow> string \<Rightarrow> Document_t" where
  "Document_add_chunk doc chunk =
     doc\<lparr>chunks := chunks doc @ [chunk], metadata := metadata doc @ [fmempty]\<rparr>"

definition Document_set_version :: "Document_t \<Rightarrow> 32 word \<Rightarrow> Document_t" where
  "Document_set_version doc version = doc\<lparr>doc_version := Some version\<rparr>"

text \<open>\<open>metadata.at(i)\<close> throws \<open>std::out_of_range\<close> when \<open>i\<close> is not an index.\<close>

definition Document_add_metadata ::
    "Document_t \<Rightarrow> 32 word \<Rightarrow> string \<Rightarrow> MetadataValue \<Rightarrow> error + Document_t" where
  "Document_add_metadata doc i key v =
     (if unat i < length (metadata doc) then
        Inr (doc\<lparr>metadata := (metadata doc)[unat i := fmupd key v (metadata doc ! unat i)]\<rparr>)
      else Inl OutOfRange)"

text \<open>
  The calls a client can make on a document after \<open>Document_new\<close>. A call that throws
  has changed nothing, so the document is then the one before the call.
\<close>

datatype Document_call =
    Add_chunk string
  | Set_version "32 word"
  | Add_metadata "32 word" string MetadataValue

fun Document_do :: "Document_t \<Rightarrow> Document_call \<Rightarrow> Document_t" where
  "Document_do doc (Add_chunk chunk) = Document_add_chunk doc chunk"
| "Document_do doc (Set_version version) = Document_set_version doc version"
| "Document_do doc (Add_metadata i key v) =
     (case Document_add_metadata doc i key v of Inl _ \<Rightarrow> doc | Inr doc' \<Rightarrow> doc')"

section \<open>The store contract (Chunk.h, NeuralDB.h)\<close>

text \<open>
  The structs of \<open>Chunk.h\<close> and \<open>NeuralDB.h\<close>. \<open>ChunkId\<close> is \<open>uint64_t\<close> and \<open>DocId\<close> is
  \<open>std::string\<close>. The fields of \<open>Chunk\<close> carry a prefix, since field names are global
  here and \<open>Document_t\<close> has the same ones.
\<close>

type_synonym ChunkId = "64 word"

type_synonym DocId = string

record Chunk =
  chunk_id :: ChunkId
  chunk_text :: string
  chunk_document :: string
  chunk_doc_id :: DocId
  chunk_doc_version :: "32 word"
  chunk_metadata :: MetadataMap

record InsertMetadata =
  insert_doc_id :: DocId
  insert_doc_version :: "32 word"
  start_id :: ChunkId
  end_id :: ChunkId

text \<open>
  Modelled from the spec: the store behind the abstract \<open>NeuralDB\<close> interface, whose
  implementation (\<open>OnDiskNeuralDB\<close>) is declared and not defined in the sources. The
  spec: chunk ids are 64-bit and monotonically assigned; \<open>insert\<close> allocates a
  contiguous id range to the chunks in chunk order and returns it with the document id
  and the version used; an omitted version is the next version of that document id,
  from 1; chunks and metadata of different lengths are an InvalidArgument; ids are never
  reused, also after deletion; a failed call changes nothing. The store is the list of
  live chunks and the first id not yet assigned. The range returned is half-open:
  \<open>start_id\<close> is the first id and \<open>end_id\<close> is one past the last. An insert that would
  leave the 64-bit id space fails, since it could not keep ids unique.
\<close>

record Store =
  live :: "Chunk list"
  next_id :: ChunkId

definition Store_new :: Store where
  "Store_new = \<lparr>live = [], next_id = 0\<rparr>"

definition versions_of :: "Store \<Rightarrow> DocId \<Rightarrow> 32 word list" where
  "versions_of st d = map chunk_doc_version (filter (\<lambda>c. chunk_doc_id c = d) (live st))"

definition next_version :: "Store \<Rightarrow> DocId \<Rightarrow> 32 word" where
  "next_version st d = fold max (versions_of st d) 0 + 1"

definition new_chunks ::
    "ChunkId \<Rightarrow> string list \<Rightarrow> MetadataMap list \<Rightarrow> string \<Rightarrow> DocId \<Rightarrow> 32 word \<Rightarrow> Chunk list" where
  "new_chunks start texts maps name d version =
     map (\<lambda>(i, t, m).
            \<lparr>chunk_id = start + of_nat i, chunk_text = t, chunk_document = name,
             chunk_doc_id = d, chunk_doc_version = version, chunk_metadata = m\<rparr>)
         (zip [0 ..< length texts] (zip texts maps))"

definition Store_insert ::
    "Store \<Rightarrow> string list \<Rightarrow> MetadataMap list \<Rightarrow> string \<Rightarrow> DocId \<Rightarrow> 32 word option
       \<Rightarrow> error + Store \<times> InsertMetadata" where
  "Store_insert st texts maps name d version_opt =
     (if length texts \<noteq> length maps then Inl InvalidArgument
      else if 2 ^ 64 \<le> unat (next_id st) + length texts then Inl EngineFailure
      else
        let version = (case version_opt of Some v \<Rightarrow> v | None \<Rightarrow> next_version st d);
            start = next_id st;
            stop = start + of_nat (length texts)
        in Inr (st\<lparr>live := live st @ new_chunks start texts maps name d version,
                     next_id := stop\<rparr>,
                \<lparr>insert_doc_id = d, insert_doc_version = version,
                 start_id = start, end_id = stop\<rparr>))"

definition Store_deleteDocVersion :: "Store \<Rightarrow> DocId \<Rightarrow> 32 word \<Rightarrow> Store" where
  "Store_deleteDocVersion st d version =
     st\<lparr>live := filter (\<lambda>c. \<not> (chunk_doc_id c = d \<and> chunk_doc_version c = version)) (live st)\<rparr>"

definition Store_deleteDoc :: "Store \<Rightarrow> DocId \<Rightarrow> bool \<Rightarrow> Store" where
  "Store_deleteDoc st d keep_latest_version =
     (if keep_latest_version then
        st\<lparr>live := filter (\<lambda>c. chunk_doc_id c \<noteq> d
                                 \<or> chunk_doc_version c = fold max (versions_of st d) 0) (live st)\<rparr>
      else st\<lparr>live := filter (\<lambda>c. chunk_doc_id c \<noteq> d) (live st)\<rparr>)"

definition Store_prune :: "Store \<Rightarrow> Store" where
  "Store_prune st = st"

text \<open>
  The calls of a store's lifetime that bear on chunk ids, and the results of the inserts
  that succeeded, in call order, each with the number of chunks it was given.
\<close>

datatype Store_call =
    Insert "string list" "MetadataMap list" string DocId "32 word option"
  | DeleteDocVersion DocId "32 word"
  | DeleteDoc DocId bool
  | Prune

fun Store_run :: "Store \<Rightarrow> Store_call list \<Rightarrow> (nat \<times> InsertMetadata) list" where
  "Store_run st [] = []"
| "Store_run st (Insert texts maps name d version_opt # calls) =
     (case Store_insert st texts maps name d version_opt of
        Inl _ \<Rightarrow> Store_run st calls
      | Inr (st', r) \<Rightarrow> (length texts, r) # Store_run st' calls)"
| "Store_run st (DeleteDocVersion d version # calls) =
     Store_run (Store_deleteDocVersion st d version) calls"
| "Store_run st (DeleteDoc d keep # calls) = Store_run (Store_deleteDoc st d keep) calls"
| "Store_run st (Prune # calls) = Store_run (Store_prune st) calls"

text \<open>The ids of a returned range, in order.\<close>

definition range_ids :: "InsertMetadata \<Rightarrow> ChunkId list" where
  "range_ids r = map of_nat [unat (start_id r) ..< unat (end_id r)]"

section \<open>Properties\<close>

subsection \<open>Strings, substrings and constructed values\<close>

declare find_from.simps [simp del]

lemma traits_compare_eq:
  "length s = length t \<Longrightarrow> traits_compare s t = 0 \<longleftrightarrow> s = t"
  by (induction s t rule: list_induct2) (auto simp: linorder_neq_iff)

lemma string_eq_iff: "string_eq s t \<longleftrightarrow> s = t"
  using traits_compare_eq [of s t] by (auto simp: string_eq_def)

lemma find_from_sublist:
  "find_from hay needle pos \<noteq> None \<longleftrightarrow> sublist needle hay"
proof (induction hay needle pos rule: find_from.induct)
  case (1 hay needle pos)
  show ?case
  proof (cases "length hay < length needle")
    case True
    then have "\<not> sublist needle hay"
      using sublist_length_le [of needle hay] by auto
    with True show ?thesis by (simp add: find_from.simps [of hay])
  next
    case long: False
    show ?thesis
    proof (cases "take (length needle) hay = needle")
      case True
      then have "prefix needle hay" by (metis take_is_prefix)
      then have "sublist needle hay" by (rule prefix_imp_sublist)
      with long True show ?thesis
        by (simp add: find_from.simps [of hay] string_eq_iff)
    next
      case nopre: False
      then have np: "\<not> prefix needle hay"
        by (metis prefix_def append_eq_conv_conj)
      show ?thesis
      proof (cases hay)
        case Nil
        with long nopre show ?thesis by simp
      next
        case (Cons c rest)
        have "sublist needle hay \<longleftrightarrow> sublist needle rest"
          using np by (simp add: Cons sublist_Cons_right)
        moreover have "find_from hay needle pos = find_from rest needle (Suc pos)"
          using long nopre unfolding Cons
          by (simp add: find_from.simps [of "c # rest"] string_eq_iff)
        ultimately show ?thesis
          using "1.IH" [OF long _ Cons] nopre by (simp add: string_eq_iff)
      qed
    qed
  qed
qed

lemma constructed_cases:
  "constructed v \<longleftrightarrow>
     v = MetadataValue_default \<or> (\<exists>b. v = MetadataValue_Bool b)
     \<or> (\<exists>i. v = MetadataValue_Int i) \<or> (\<exists>f. v = MetadataValue_Float f)
     \<or> (\<exists>s. v = MetadataValue_Str s)"
  by (cases v; cases "type v"; cases "value v")
     (auto simp: constructed_def MetadataValue_default_def MetadataValue_Bool_def
        MetadataValue_Int_def MetadataValue_Float_def MetadataValue_Str_def)

lemma constructed_Str: "constructed v \<Longrightarrow> type v = Type_Str \<Longrightarrow> \<exists>s. value v = V_string s"
  by (cases "value v") (simp_all add: constructed_def)

lemma hasSubstring_Str:
  "hasSubstring (MetadataValue_Str h) (MetadataValue_Str n) = Inr (sublist n h)"
  using find_from_sublist [of h n 0]
  by (simp add: hasSubstring_def asStr_def checkType_def MetadataValue_Str_def find_str_def)

lemma hasSubstring_other:
  "\<not> (type v = Type_Str \<and> type other = Type_Str) \<Longrightarrow> hasSubstring v other = Inr False"
  by (auto simp: hasSubstring_def)

lemma float_eq_sym: "float_eq a b = float_eq b a"
  by (auto simp: float_eq_def)

lemma variant_eq_sym: "variant_eq v w = variant_eq w v"
  by (cases v; cases w) (auto simp: float_eq_sym string_eq_iff)

lemma equals_sym: "equals a b = equals b a"
  by (auto simp: equals_def variant_eq_sym)

lemma any_of_iff: "any_of p xs \<longleftrightarrow> (\<exists>x\<in>set xs. p x)"
  by (induction xs) auto

subsection \<open>Floats compare as the numbers they denote\<close>

lemma magnitude_unat: "unat (f AND 0x7FFFFFFF) = unat f mod 2 ^ 31" for f :: "32 word"
proof -
  have "(0x7FFFFFFF :: 32 word) = mask 31"
    by (simp add: mask_eq_exp_minus_1)
  then have "f AND 0x7FFFFFFF = take_bit 31 f"
    by (simp add: take_bit_eq_mask)
  then show ?thesis
    by (simp add: take_bit_eq_mod unat_mod)
qed

lemma sign_bit: "(f AND 0x80000000 = 0) \<longleftrightarrow> \<not> float_sign f" for f :: "32 word"
proof -
  have "(0x80000000 :: 32 word) = 2 ^ 31" by simp
  then show ?thesis
    by (simp only: and_exp_eq_0_iff_not_bit float_sign_def)
qed

lemma exponent_unat: "float_exponent f = (unat f div 2 ^ 23) mod 2 ^ 8"
  by (simp add: float_exponent_def take_bit_eq_mod drop_bit_eq_div unat_mod unat_div)

lemma fraction_unat: "float_fraction f = unat f mod 2 ^ 23"
  by (simp add: float_fraction_def take_bit_eq_mod unat_mod)

lemma magnitude_fields:
  "unat (f AND 0x7FFFFFFF) = float_exponent f * 2 ^ 23 + float_fraction f"
proof -
  have "unat f mod (2 ^ 23 * 2 ^ 8) = 2 ^ 23 * (unat f div 2 ^ 23 mod 2 ^ 8) + unat f mod 2 ^ 23"
    by (rule mod_mult2_eq)
  then show ?thesis
    by (simp add: magnitude_unat exponent_unat fraction_unat)
qed

lemma fields_bounds: "float_exponent f < 256" "float_fraction f < 2 ^ 23"
  by (simp_all add: exponent_unat fraction_unat)


lemma float_scaled_Suc: "float_scaled n < float_scaled (Suc n)"
proof (cases "Suc (n mod 2 ^ 23) = (2 ^ 23 :: nat)")
  case False
  then have "Suc n mod 2 ^ 23 = Suc (n mod 2 ^ 23)" "Suc n div 2 ^ 23 = n div 2 ^ 23"
    by (simp_all add: mod_Suc div_Suc)
  then show ?thesis by (simp add: float_scaled_def)
next
  case True
  then have next_field: "Suc n mod 2 ^ 23 = 0" "Suc n div 2 ^ 23 = Suc (n div 2 ^ 23)"
    by (simp_all add: mod_Suc div_Suc)
  have m: "n mod 2 ^ 23 = 2 ^ 23 - 1" using True by simp
  show ?thesis
  proof (cases "n div 2 ^ 23")
    case 0
    then show ?thesis using next_field m by (simp add: float_scaled_def)
  next
    case (Suc k)
    have "(2 ^ 23 + (2 ^ 23 - 1)) * 2 ^ k < (2 ^ 23 :: nat) * 2 ^ Suc k"
      by simp
    then show ?thesis using next_field m Suc by (simp add: float_scaled_def)
  qed
qed

lemma float_scaled_mono: "strict_mono float_scaled"
  by (simp add: strict_mono_Suc_iff float_scaled_Suc)

lemma float_scaled_less: "float_scaled a < float_scaled b \<longleftrightarrow> a < b"
  by (rule strict_mono_less [OF float_scaled_mono])

lemma float_scaled_0: "float_scaled a = 0 \<longleftrightarrow> a = 0"
proof -
  have z: "float_scaled 0 = 0" by (simp add: float_scaled_def)
  show ?thesis
    using float_scaled_less [of 0 a] z by (cases "a = 0") auto
qed

lemma float_key_signed: "float_key f < float_key g \<longleftrightarrow> float_signed f < float_signed g"
proof -
  define a b where "a = unat (f AND 0x7FFFFFFF)" and "b = unat (g AND 0x7FFFFFFF)"
  have key: "float_key f = (if float_sign f then - int a else int a)"
    "float_key g = (if float_sign g then - int b else int b)"
    by (simp_all add: float_key_def sign_bit a_def b_def)
  have signed: "float_signed f = (if float_sign f then - int (float_scaled a) else int (float_scaled a))"
    "float_signed g = (if float_sign g then - int (float_scaled b) else int (float_scaled b))"
    by (simp_all add: float_signed_def a_def b_def)
  show ?thesis
    using float_scaled_less [of a b] float_scaled_less [of b a]
      float_scaled_0 [of a] float_scaled_0 [of b]
    unfolding key signed
    by (cases "float_sign f"; cases "float_sign g") auto
qed

lemma float_key_signed_eq: "float_key f = float_key g \<longleftrightarrow> float_signed f = float_signed g"
  using float_key_signed [of f g] float_key_signed [of g f] by auto

lemma magnitude_div_mod:
  "unat (f AND 0x7FFFFFFF) div 2 ^ 23 = float_exponent f"
  "unat (f AND 0x7FFFFFFF) mod 2 ^ 23 = float_fraction f"
  using fields_bounds(2) [of f] by (simp_all add: magnitude_fields)

lemma float_infinity_pos: "0 < float_infinity"
  using float_scaled_0 [of "255 * 2 ^ 23"] by (simp add: float_infinity_def)

lemma float_isnan_fields:
  "float_isnan f \<longleftrightarrow> float_exponent f = 255 \<and> float_fraction f \<noteq> 0"
  using fields_bounds [of f]
  by (auto simp: float_isnan_def magnitude_fields)

lemma float_decode_NaN: "float_decode f = NaN \<longleftrightarrow> float_isnan f"
  by (simp add: float_decode_def Let_def float_isnan_fields)

lemma float_decode_infinite:
  assumes "float_exponent f = 255" and "float_fraction f = 0"
  shows "float_decode f = (if float_sign f then Minus_infinity else Plus_infinity)"
    and "float_signed f = (if float_sign f then - int float_infinity else int float_infinity)"
  using assms
  by (simp_all add: float_decode_def float_signed_def float_infinity_def magnitude_fields)

lemma float_decode_finite:
  assumes "float_exponent f \<noteq> 255"
  shows "float_decode f = Finite (real_of_int (float_signed f) / 2 ^ 149)"
    and "\<bar>float_signed f\<bar> < int float_infinity"
proof -
  let ?e = "float_exponent f" and ?m = "float_fraction f"
  have sc: "float_scaled (unat (f AND 0x7FFFFFFF))
              = (if ?e = 0 then ?m else (2 ^ 23 + ?m) * 2 ^ (?e - 1))"
    by (simp only: float_scaled_def magnitude_div_mod)
  show "float_decode f = Finite (real_of_int (float_signed f) / 2 ^ 149)"
  proof (cases ?e)
    case 0
    then show ?thesis
      by (simp add: float_decode_def float_signed_def sc)
  next
    case (Suc k)
    let ?s = "if float_sign f then - 1 else 1 :: real"
    have mag: "(1 + real ?m / 2 ^ 23) * 2 ^ Suc k / 2 ^ 127
            = real ((2 ^ 23 + ?m) * 2 ^ k) / 2 ^ 149"
      by (simp add: field_simps)
    have d: "float_decode f = Finite (?s * ((1 + real ?m / 2 ^ 23) * 2 ^ Suc k / 2 ^ 127))"
      using assms Suc by (simp add: float_decode_def)
    have sg: "real_of_int (float_signed f) / 2 ^ 149
                = ?s * (real ((2 ^ 23 + ?m) * 2 ^ k) / 2 ^ 149)"
      using Suc by (simp add: float_signed_def sc)
    show ?thesis by (simp only: d sg mag)
  qed
  have "?e < 255" using assms fields_bounds(1) [of f] by simp
  then have "unat (f AND 0x7FFFFFFF) < 255 * 2 ^ 23"
    using fields_bounds(2) [of f] by (simp add: magnitude_fields)
  then have "float_scaled (unat (f AND 0x7FFFFFFF)) < float_infinity"
    by (simp add: float_infinity_def float_scaled_less)
  then show "\<bar>float_signed f\<bar> < int float_infinity"
    by (simp add: float_signed_def)
qed

lemma ieee_less_signed:
  assumes "\<not> float_isnan f" and "\<not> float_isnan g"
  shows "ieee_less (float_decode f) (float_decode g) \<longleftrightarrow> float_signed f < float_signed g"
proof -
  have f: "float_exponent f = 255 \<Longrightarrow> float_fraction f = 0"
    and g: "float_exponent g = 255 \<Longrightarrow> float_fraction g = 0"
    using assms by (simp_all add: float_isnan_fields)
  show ?thesis
  proof (cases "float_exponent f = 255"; cases "float_exponent g = 255")
    assume a: "float_exponent f = 255" "float_exponent g = 255"
    show ?thesis
      using float_decode_infinite [OF a(1) f [OF a(1)]] float_decode_infinite [OF a(2) g [OF a(2)]]
        float_infinity_pos
      by auto
  next
    assume a: "float_exponent f = 255" "float_exponent g \<noteq> 255"
    show ?thesis
      using float_decode_infinite [OF a(1) f [OF a(1)]] float_decode_finite [OF a(2)]
      by auto
  next
    assume a: "float_exponent f \<noteq> 255" "float_exponent g = 255"
    show ?thesis
      using float_decode_finite [OF a(1)] float_decode_infinite [OF a(2) g [OF a(2)]]
      by auto
  next
    assume a: "float_exponent f \<noteq> 255" "float_exponent g \<noteq> 255"
    show ?thesis
      using float_decode_finite [OF a(1)] float_decode_finite [OF a(2)]
      by (simp add: divide_less_cancel)
  qed
qed

lemma float_less_decode: "float_less f g \<longleftrightarrow> ieee_less (float_decode f) (float_decode g)"
proof (cases "float_isnan f \<or> float_isnan g")
  case True
  then have "float_decode f = NaN \<or> float_decode g = NaN"
    by (simp add: float_decode_NaN)
  then have "\<not> ieee_less (float_decode f) (float_decode g)"
    by (cases "float_decode f") auto
  with True show ?thesis by (auto simp: float_less_def)
next
  case False
  then show ?thesis
    using ieee_less_signed [of f g] by (simp add: float_less_def float_key_signed)
qed

lemma ieee_eq_less:
  "x \<noteq> NaN \<Longrightarrow> y \<noteq> NaN \<Longrightarrow> ieee_eq x y \<longleftrightarrow> \<not> ieee_less x y \<and> \<not> ieee_less y x"
  by (cases x; cases y) auto

lemma float_eq_decode: "float_eq f g \<longleftrightarrow> ieee_eq (float_decode f) (float_decode g)"
proof (cases "float_isnan f \<or> float_isnan g")
  case True
  then have "float_decode f = NaN \<or> float_decode g = NaN"
    by (simp add: float_decode_NaN)
  then have "\<not> ieee_eq (float_decode f) (float_decode g)"
    by (cases "float_decode f") auto
  with True show ?thesis by (auto simp: float_eq_def)
next
  case False
  then have "float_decode f \<noteq> NaN" "float_decode g \<noteq> NaN"
    by (simp_all add: float_decode_NaN)
  then show ?thesis
    using False ieee_less_signed [of f g] ieee_less_signed [of g f]
    by (auto simp: float_eq_def float_key_signed_eq ieee_eq_less)
qed

subsection \<open>Nil values compare equal\<close>

text \<open>
  Claim C10. Every Nil-tagged value that can be constructed is the default-constructed
  one, with tag \<open>Nil\<close> and the variant holding \<open>false\<close>. Two such values are equal under
  \<open>equals\<close>, and an \<open>EqualTo\<close> constraint that owns one matches the other: Nil values
  take part in comparison like the values of the other tags.
\<close>
theorem nil_equals_nil:
  assumes "constructed a" and "type a = Type_Nil" and "constructed b" and "type b = Type_Nil"
  shows "a = MetadataValue_default \<and> b = MetadataValue_default \<and> equals a b
         \<and> Constraint_matches (EqualTo a) b = Inr True"
proof -
  have a: "value a = V_bool False"
    using assms(1,2) by (cases "value a") (simp_all add: constructed_def)
  have b: "value b = V_bool False"
    using assms(3,4) by (cases "value b") (simp_all add: constructed_def)
  show ?thesis
    using a b assms(2,4) by (simp add: equals_def MetadataValue_default_def)
qed

theorem nil_equals_nil_witness:
  "constructed MetadataValue_default \<and> type MetadataValue_default = Type_Nil
   \<and> equals MetadataValue_default MetadataValue_default
   \<and> Constraint_matches (EqualTo MetadataValue_default) MetadataValue_default = Inr True"
proof -
  have c: "constructed MetadataValue_default"
    by (simp add: constructed_def MetadataValue_default_def)
  have t: "type MetadataValue_default = Type_Nil"
    by (simp add: MetadataValue_default_def)
  show ?thesis using nil_equals_nil [OF c t c t] c t by simp
qed

subsection \<open>Values of different tags\<close>

text \<open>
  Claim C2. For two values whose tags differ, \<open>equals\<close>, \<open>lessThan\<close> and \<open>greaterThan\<close>
  return false, and \<open>hasSubstring\<close> returns false without throwing. \<open>hasSubstring\<close>
  returns false whenever one of the two values is not \<open>Str\<close>-tagged. This holds of every
  pair of tag and variant, also of the pairs that no constructor builds.
\<close>
theorem tag_mismatch_is_false:
  "(type a \<noteq> type b \<longrightarrow>
      \<not> equals a b \<and> \<not> lessThan_value a b \<and> \<not> greaterThan_value a b
      \<and> hasSubstring a b = Inr False)
   \<and> (\<not> (type a = Type_Str \<and> type b = Type_Str) \<longrightarrow> hasSubstring a b = Inr False)"
  by (auto simp: equals_def lessThan_value_def greaterThan_value_def hasSubstring_def)

theorem tag_mismatch_is_false_witness:
  "type (MetadataValue_Int 1) \<noteq> type (MetadataValue_Str ''1'')
   \<and> \<not> equals (MetadataValue_Int 1) (MetadataValue_Str ''1'')
   \<and> \<not> lessThan_value (MetadataValue_Int 1) (MetadataValue_Str ''1'')
   \<and> \<not> greaterThan_value (MetadataValue_Int 1) (MetadataValue_Str ''1'')
   \<and> hasSubstring (MetadataValue_Int 1) (MetadataValue_Str ''1'') = Inr False"
  using tag_mismatch_is_false [of "MetadataValue_Int 1" "MetadataValue_Str ''1''"]
  by (simp add: MetadataValue_Int_def MetadataValue_Str_def)

subsection \<open>Accessors throw, predicates do not\<close>

lemma asBool_iff: "constructed v \<Longrightarrow> (\<exists>b. asBool v = Inr b) \<longleftrightarrow> type v = Type_Bool"
  by (cases "type v"; cases "value v") (simp_all add: asBool_def checkType_def constructed_def)

lemma asInt_iff: "constructed v \<Longrightarrow> (\<exists>i. asInt v = Inr i) \<longleftrightarrow> type v = Type_Int"
  by (cases "type v"; cases "value v") (simp_all add: asInt_def checkType_def constructed_def)

lemma asFloat_iff: "constructed v \<Longrightarrow> (\<exists>f. asFloat v = Inr f) \<longleftrightarrow> type v = Type_Float"
  by (cases "type v"; cases "value v") (simp_all add: asFloat_def checkType_def constructed_def)

lemma asStr_iff: "constructed v \<Longrightarrow> (\<exists>s. asStr v = Inr s) \<longleftrightarrow> type v = Type_Str"
  by (cases "type v"; cases "value v") (simp_all add: asStr_def checkType_def constructed_def)

lemma hasSubstring_total:
  assumes "constructed v" and "constructed w"
  shows "\<exists>r. hasSubstring v w = Inr r"
proof (cases "type v = Type_Str \<and> type w = Type_Str")
  case True
  then obtain h n where "value v = V_string h" and "value w = V_string n"
    using assms constructed_Str by blast
  with True show ?thesis
    by (simp add: hasSubstring_def asStr_def checkType_def)
next
  case False
  then show ?thesis using hasSubstring_other by blast
qed

text \<open>
  Claim C3. On a constructed value, each accessor \<open>asBool\<close>, \<open>asInt\<close>, \<open>asFloat\<close>,
  \<open>asStr\<close> returns a value exactly when the tag is the requested one, and then it is
  the value the constructor stored; on any other tag it fails with the type mismatch
  error of \<open>checkType\<close>. The predicates do not throw: \<open>equals\<close>, \<open>lessThan\<close> and
  \<open>greaterThan\<close> only compare the tags and the variants, and \<open>hasSubstring\<close> returns a
  boolean on every pair of constructed values.
\<close>
theorem accessors_check_the_tag:
  assumes "constructed v"
  shows "((\<exists>b. asBool v = Inr b) \<longleftrightarrow> type v = Type_Bool)
       \<and> ((\<exists>i. asInt v = Inr i) \<longleftrightarrow> type v = Type_Int)
       \<and> ((\<exists>f. asFloat v = Inr f) \<longleftrightarrow> type v = Type_Float)
       \<and> ((\<exists>s. asStr v = Inr s) \<longleftrightarrow> type v = Type_Str)
       \<and> (type v \<noteq> Type_Bool \<longrightarrow> asBool v = Inl (TypeMismatch (type v) Type_Bool))
       \<and> (type v \<noteq> Type_Int \<longrightarrow> asInt v = Inl (TypeMismatch (type v) Type_Int))
       \<and> (type v \<noteq> Type_Float \<longrightarrow> asFloat v = Inl (TypeMismatch (type v) Type_Float))
       \<and> (type v \<noteq> Type_Str \<longrightarrow> asStr v = Inl (TypeMismatch (type v) Type_Str))
       \<and> asBool (MetadataValue_Bool b) = Inr b
       \<and> asInt (MetadataValue_Int i) = Inr i
       \<and> asFloat (MetadataValue_Float f) = Inr f
       \<and> asStr (MetadataValue_Str s) = Inr s
       \<and> (\<forall>w. constructed w \<longrightarrow> (\<exists>r. hasSubstring v w = Inr r))"
proof -
  have mism:
    "type v \<noteq> Type_Bool \<longrightarrow> asBool v = Inl (TypeMismatch (type v) Type_Bool)"
    "type v \<noteq> Type_Int \<longrightarrow> asInt v = Inl (TypeMismatch (type v) Type_Int)"
    "type v \<noteq> Type_Float \<longrightarrow> asFloat v = Inl (TypeMismatch (type v) Type_Float)"
    "type v \<noteq> Type_Str \<longrightarrow> asStr v = Inl (TypeMismatch (type v) Type_Str)"
    by (simp_all add: asBool_def asInt_def asFloat_def asStr_def checkType_def)
  have stored:
    "asBool (MetadataValue_Bool b) = Inr b"
    "asInt (MetadataValue_Int i) = Inr i"
    "asFloat (MetadataValue_Float f) = Inr f"
    "asStr (MetadataValue_Str s) = Inr s"
    by (simp_all add: asBool_def asInt_def asFloat_def asStr_def checkType_def
          MetadataValue_Bool_def MetadataValue_Int_def MetadataValue_Float_def
          MetadataValue_Str_def)
  show ?thesis
    using asBool_iff [OF assms] asInt_iff [OF assms] asFloat_iff [OF assms]
      asStr_iff [OF assms] mism stored hasSubstring_total [OF assms]
    by blast
qed

theorem accessors_check_the_tag_witness:
  "constructed (MetadataValue_Int 7)
   \<and> asInt (MetadataValue_Int 7) = Inr 7
   \<and> asBool (MetadataValue_Int 7) = Inl (TypeMismatch Type_Int Type_Bool)
   \<and> asFloat (MetadataValue_Int 7) = Inl (TypeMismatch Type_Int Type_Float)
   \<and> asStr (MetadataValue_Int 7) = Inl (TypeMismatch Type_Int Type_Str)
   \<and> (\<exists>r. hasSubstring (MetadataValue_Int 7) (MetadataValue_Str ''7'') = Inr r)"
proof -
  have c: "constructed (MetadataValue_Int 7)"
    by (simp add: constructed_def MetadataValue_Int_def)
  have d: "constructed (MetadataValue_Str ''7'')"
    by (simp add: constructed_def MetadataValue_Str_def)
  have t: "type (MetadataValue_Int 7) = Type_Int"
    by (simp add: MetadataValue_Int_def)
  show ?thesis
    using accessors_check_the_tag [OF c, of True 7 0 "''''"] c d t by simp
qed

subsection \<open>Substring\<close>

text \<open>
  Claim C5. A \<open>Substring\<close> constraint that owns \<open>s\<close> matches a candidate \<open>c\<close> exactly
  when both are \<open>Str\<close>-tagged and the string of \<open>s\<close> occurs in the string of \<open>c\<close>: the
  constraint's value is the needle and the candidate is the haystack. It never throws
  on constructed values. The needle \<open>ab\<close> matches \<open>xaby\<close> and does not match \<open>ba\<close>.
\<close>
theorem substring_needle_in_haystack:
  assumes "constructed s" and "constructed c"
  shows "Constraint_matches (Substring s) c =
           Inr (\<exists>needle hay. s = MetadataValue_Str needle \<and> c = MetadataValue_Str hay
                  \<and> sublist needle hay)"
proof (cases "type c = Type_Str \<and> type s = Type_Str")
  case True
  then obtain hay needle where "value c = V_string hay" and "value s = V_string needle"
    using assms constructed_Str by blast
  with True have c: "c = MetadataValue_Str hay" and s: "s = MetadataValue_Str needle"
    by (simp_all add: MetadataValue_Str_def)
  have "Constraint_matches (Substring s) c = Inr (sublist needle hay)"
    unfolding c s by (simp add: hasSubstring_Str)
  moreover have "(\<exists>n h. s = MetadataValue_Str n \<and> c = MetadataValue_Str h \<and> sublist n h)
                 \<longleftrightarrow> sublist needle hay"
    unfolding c s by (auto simp: MetadataValue_Str_def)
  ultimately show ?thesis by simp
next
  case False
  then have "Constraint_matches (Substring s) c = Inr False"
    using hasSubstring_other [of c s] by auto
  moreover have "\<not> (\<exists>n h. s = MetadataValue_Str n \<and> c = MetadataValue_Str h \<and> sublist n h)"
    using False by (auto simp: MetadataValue_Str_def)
  ultimately show ?thesis by simp
qed

theorem substring_needle_in_haystack_witness:
  "constructed (MetadataValue_Str ''ab'') \<and> constructed (MetadataValue_Str ''xaby'')
   \<and> constructed (MetadataValue_Str ''ba'')
   \<and> Constraint_matches (Substring (MetadataValue_Str ''ab'')) (MetadataValue_Str ''xaby'')
       = Inr True
   \<and> Constraint_matches (Substring (MetadataValue_Str ''ab'')) (MetadataValue_Str ''ba'')
       = Inr False
   \<and> sublist ''ab'' ''xaby'' \<and> \<not> sublist ''ab'' ''ba''"
proof -
  have c: "constructed (MetadataValue_Str ''ab'')" "constructed (MetadataValue_Str ''xaby'')"
    "constructed (MetadataValue_Str ''ba'')"
    by (simp_all add: constructed_def MetadataValue_Str_def)
  have inj: "\<And>x y. MetadataValue_Str x = MetadataValue_Str y \<longleftrightarrow> x = y"
    by (simp add: MetadataValue_Str_def)
  have run1:
    "Constraint_matches (Substring (MetadataValue_Str ''ab'')) (MetadataValue_Str ''xaby'')
       = Inr True"
    by (simp add: hasSubstring_def asStr_def checkType_def MetadataValue_Str_def find_str_def
          find_from.simps string_eq_def)
  have run2:
    "Constraint_matches (Substring (MetadataValue_Str ''ab'')) (MetadataValue_Str ''ba'')
       = Inr False"
    by (simp add: hasSubstring_def asStr_def checkType_def MetadataValue_Str_def find_str_def
          find_from.simps string_eq_def)
  show ?thesis
    using substring_needle_in_haystack [OF c(1) c(2)] substring_needle_in_haystack [OF c(1) c(3)]
      c run1 run2
    by (simp add: inj)
qed

subsection \<open>AnyOf\<close>

text \<open>
  Claim C6. An \<open>AnyOf\<close> constraint matches a candidate exactly when an \<open>EqualTo\<close>
  constraint on one of its values matches the candidate, that is when one of its
  values has the candidate's tag and an equal variant. With no values it matches
  nothing. On two values of the same tag \<open>EqualTo\<close> is equality of the booleans, of the
  integers, of the numbers the floats denote (a NaN equals nothing) and of the strings.
\<close>
theorem any_of_is_some_equal_to:
  "Constraint_matches (AnyOf S) c
     = Inr (\<exists>v\<in>set S. Constraint_matches (EqualTo v) c = Inr True)
   \<and> Constraint_matches (EqualTo v) c
       = Inr (type v = type c \<and> variant_eq (value v) (value c))
   \<and> Constraint_matches (AnyOf []) c = Inr False
   \<and> Constraint_matches (EqualTo (MetadataValue_Bool q)) (MetadataValue_Bool p) = Inr (p = q)
   \<and> Constraint_matches (EqualTo (MetadataValue_Int j)) (MetadataValue_Int i) = Inr (i = j)
   \<and> Constraint_matches (EqualTo (MetadataValue_Float g)) (MetadataValue_Float f)
       = Inr (ieee_eq (float_decode g) (float_decode f))
   \<and> Constraint_matches (EqualTo (MetadataValue_Str t)) (MetadataValue_Str s) = Inr (s = t)"
proof -
  have tagwise:
    "Constraint_matches (EqualTo (MetadataValue_Bool q)) (MetadataValue_Bool p) = Inr (p = q)"
    "Constraint_matches (EqualTo (MetadataValue_Int j)) (MetadataValue_Int i) = Inr (i = j)"
    "Constraint_matches (EqualTo (MetadataValue_Float g)) (MetadataValue_Float f)
       = Inr (ieee_eq (float_decode g) (float_decode f))"
    "Constraint_matches (EqualTo (MetadataValue_Str t)) (MetadataValue_Str s) = Inr (s = t)"
    by (auto simp: equals_def MetadataValue_Bool_def MetadataValue_Int_def
          MetadataValue_Float_def MetadataValue_Str_def string_eq_iff float_eq_decode)
  have "any_of (\<lambda>x. equals c x) S \<longleftrightarrow> (\<exists>v\<in>set S. equals v c)"
    by (simp add: any_of_iff equals_sym [of c])
  then have "Constraint_matches (AnyOf S) c
     = Inr (\<exists>v\<in>set S. Constraint_matches (EqualTo v) c = Inr True)"
    by simp
  moreover have "Constraint_matches (EqualTo v) c
       = Inr (type v = type c \<and> variant_eq (value v) (value c))"
    by (simp add: equals_def)
  moreover have "Constraint_matches (AnyOf []) c = Inr False"
    by simp
  ultimately show ?thesis using tagwise by blast
qed

theorem any_of_is_some_equal_to_witness:
  "Constraint_matches (AnyOf [MetadataValue_Int 1, MetadataValue_Str ''a'']) (MetadataValue_Str ''a'')
     = Inr True
   \<and> Constraint_matches (AnyOf [MetadataValue_Int 1, MetadataValue_Str ''a'']) (MetadataValue_Int 2)
     = Inr False"
  using any_of_is_some_equal_to
     [where S = "[MetadataValue_Int 1, MetadataValue_Str ''a'']" and c = "MetadataValue_Str ''a''"]
    any_of_is_some_equal_to
     [where S = "[MetadataValue_Int 1, MetadataValue_Str ''a'']" and c = "MetadataValue_Int 2"]
  by (simp add: equals_def MetadataValue_Int_def MetadataValue_Str_def string_eq_def)

subsection \<open>LessThan and GreaterThan\<close>

lemma string_compare_Cons:
  "string_compare (a # s) (b # t) =
     (if (of_char a :: nat) < of_char b then - 1
      else if (of_char b :: nat) < of_char a then 1
      else string_compare s t)"
  by (simp add: string_compare_def Let_def)

lemma string_compare_Nil:
  "string_compare [] t = (if t = [] then 0 else - 1)"
  "string_compare s [] = (if s = [] then 0 else 1)"
  by (simp_all add: string_compare_def)

lemma of_char_less_cases:
  "\<not> (of_char a :: nat) < of_char b \<Longrightarrow> \<not> (of_char b :: nat) < of_char a \<Longrightarrow> a = b"
  by (metis linorder_neqE_nat of_char_eq_iff)

lemma string_less_lexord: "string_less s t \<longleftrightarrow> (s, t) \<in> lexord byte_less"
proof (induction s t rule: list_induct2')
  case (4 a s b t)
  then show ?case
    using of_char_less_cases [of a b]
    by (auto simp: string_less_def string_compare_Cons byte_less_def)
qed (auto simp: string_less_def string_compare_Nil)

lemma string_greater_less: "string_greater s t = string_less t s"
proof (induction s t rule: list_induct2')
  case (4 a s b t)
  then show ?case
    by (auto simp: string_less_def string_greater_def string_compare_Cons)
qed (auto simp: string_less_def string_greater_def string_compare_Nil)

text \<open>
  Claim C7. \<open>LessThan(v)\<close> matches a candidate \<open>c\<close> exactly when \<open>c\<close> has the tag of \<open>v\<close>
  and the value of \<open>c\<close> is strictly below that of \<open>v\<close>; \<open>GreaterThan(v)\<close> likewise with
  strictly above. Tag by tag: \<open>false < true\<close> on booleans, the order of the signed
  numbers on integers, the order of the denoted numbers on floats (a NaN is below and
  above nothing), the lexicographic order of the bytes on strings, and nothing on two
  Nil values. For two values of different tags both constraints return false.
\<close>
theorem ordering_constraints:
  "(type c \<noteq> type v \<longrightarrow>
        Constraint_matches (LessThan v) c = Inr False
        \<and> Constraint_matches (GreaterThan v) c = Inr False)
   \<and> Constraint_matches (LessThan (MetadataValue_Bool q)) (MetadataValue_Bool p)
       = Inr (\<not> p \<and> q)
   \<and> Constraint_matches (GreaterThan (MetadataValue_Bool q)) (MetadataValue_Bool p)
       = Inr (p \<and> \<not> q)
   \<and> Constraint_matches (LessThan (MetadataValue_Int j)) (MetadataValue_Int i)
       = Inr (sint i < sint j)
   \<and> Constraint_matches (GreaterThan (MetadataValue_Int j)) (MetadataValue_Int i)
       = Inr (sint j < sint i)
   \<and> Constraint_matches (LessThan (MetadataValue_Float g)) (MetadataValue_Float f)
       = Inr (ieee_less (float_decode f) (float_decode g))
   \<and> Constraint_matches (GreaterThan (MetadataValue_Float g)) (MetadataValue_Float f)
       = Inr (ieee_less (float_decode g) (float_decode f))
   \<and> Constraint_matches (LessThan (MetadataValue_Str t)) (MetadataValue_Str s)
       = Inr ((s, t) \<in> lexord byte_less)
   \<and> Constraint_matches (GreaterThan (MetadataValue_Str t)) (MetadataValue_Str s)
       = Inr ((t, s) \<in> lexord byte_less)
   \<and> Constraint_matches (LessThan MetadataValue_default) MetadataValue_default = Inr False
   \<and> Constraint_matches (GreaterThan MetadataValue_default) MetadataValue_default = Inr False"
proof -
  have bools:
    "Constraint_matches (LessThan (MetadataValue_Bool q)) (MetadataValue_Bool p)
       = Inr (\<not> p \<and> q)"
    "Constraint_matches (GreaterThan (MetadataValue_Bool q)) (MetadataValue_Bool p)
       = Inr (p \<and> \<not> q)"
    by (simp_all add: lessThan_value_def greaterThan_value_def MetadataValue_Bool_def
          variant_less_def variant_greater_def)
  have ints:
    "Constraint_matches (LessThan (MetadataValue_Int j)) (MetadataValue_Int i)
       = Inr (sint i < sint j)"
    "Constraint_matches (GreaterThan (MetadataValue_Int j)) (MetadataValue_Int i)
       = Inr (sint j < sint i)"
    by (simp_all add: lessThan_value_def greaterThan_value_def MetadataValue_Int_def
          variant_less_def variant_greater_def word_sless_alt)
  have floats:
    "Constraint_matches (LessThan (MetadataValue_Float g)) (MetadataValue_Float f)
       = Inr (ieee_less (float_decode f) (float_decode g))"
    "Constraint_matches (GreaterThan (MetadataValue_Float g)) (MetadataValue_Float f)
       = Inr (ieee_less (float_decode g) (float_decode f))"
    by (simp_all add: lessThan_value_def greaterThan_value_def MetadataValue_Float_def
          variant_less_def variant_greater_def float_less_decode)
  have strs:
    "Constraint_matches (LessThan (MetadataValue_Str t)) (MetadataValue_Str s)
       = Inr ((s, t) \<in> lexord byte_less)"
    "Constraint_matches (GreaterThan (MetadataValue_Str t)) (MetadataValue_Str s)
       = Inr ((t, s) \<in> lexord byte_less)"
    by (simp_all add: lessThan_value_def greaterThan_value_def MetadataValue_Str_def
          variant_less_def variant_greater_def string_greater_less string_less_lexord)
  have nils:
    "Constraint_matches (LessThan MetadataValue_default) MetadataValue_default = Inr False"
    "Constraint_matches (GreaterThan MetadataValue_default) MetadataValue_default = Inr False"
    by (simp_all add: lessThan_value_def greaterThan_value_def MetadataValue_default_def
          variant_less_def variant_greater_def)
  have mismatch:
    "type c \<noteq> type v \<longrightarrow>
        Constraint_matches (LessThan v) c = Inr False
        \<and> Constraint_matches (GreaterThan v) c = Inr False"
    by (simp add: lessThan_value_def greaterThan_value_def)
  show ?thesis
    using bools ints floats strs nils mismatch by blast
qed

theorem ordering_constraints_witness:
  "type (MetadataValue_Int 1) \<noteq> type (MetadataValue_Str ''1'')
   \<and> Constraint_matches (LessThan (MetadataValue_Str ''1'')) (MetadataValue_Int 1) = Inr False
   \<and> Constraint_matches (GreaterThan (MetadataValue_Str ''1'')) (MetadataValue_Int 1) = Inr False
   \<and> float_decode 0x3F800000 = Finite 1 \<and> float_decode 0x40000000 = Finite 2
   \<and> Constraint_matches (LessThan (MetadataValue_Float 0x40000000))
        (MetadataValue_Float 0x3F800000) = Inr True
   \<and> Constraint_matches (GreaterThan (MetadataValue_Float 0x40000000))
        (MetadataValue_Float 0x3F800000) = Inr False
   \<and> Constraint_matches (LessThan (MetadataValue_Int 1)) (MetadataValue_Int (- 1)) = Inr True
   \<and> Constraint_matches (GreaterThan (MetadataValue_Str ''ab'')) (MetadataValue_Str ''abc'')
       = Inr True"
proof -
  have decode: "float_decode 0x3F800000 = Finite 1" "float_decode 0x40000000 = Finite 2"
    by (simp_all add: float_decode_def float_sign_def float_exponent_def float_fraction_def
          bit_iff_odd drop_bit_eq_div take_bit_eq_mod unat_div unat_mod)
  have tags: "type (MetadataValue_Int 1) \<noteq> type (MetadataValue_Str ''1'')"
    by (simp add: MetadataValue_Int_def MetadataValue_Str_def)
  have order: "sint (- 1 :: 32 word) < sint (1 :: 32 word)"
    "(''ab'', ''abc'') \<in> lexord byte_less"
    by (simp_all add: byte_less_def)
  show ?thesis
    using ordering_constraints [where v = "MetadataValue_Str ''1''" and c = "MetadataValue_Int 1"
        and f = "0x3F800000" and g = "0x40000000" and i = "- 1" and j = 1
        and s = "''abc''" and t = "''ab''"]
      decode tags order
    by simp
qed

subsection \<open>Matching a metadata map\<close>

text \<open>
  Claim C1. \<open>matches(C, M)\<close> is true exactly when every key constrained in \<open>C\<close> is
  present in \<open>M\<close> and its constraint matches the value of \<open>M\<close> at that key. A constrained
  key that \<open>M\<close> lacks makes the match false, and so does removing a constrained key from
  \<open>M\<close>.
\<close>
theorem matches_is_conjunction:
  "(matches C M \<longleftrightarrow>
      (\<forall>k c. fmlookup C k = Some c \<longrightarrow>
         (\<exists>v. fmlookup M k = Some v \<and> Constraint_matches c v = Inr True)))
   \<and> (fmlookup C key = Some c' \<and> fmlookup M key = None \<longrightarrow> \<not> matches C M)
   \<and> (fmlookup C key = Some c' \<longrightarrow> \<not> matches C (fmdrop key M))"
proof -
  have iff: "matches C N \<longleftrightarrow>
      (\<forall>k c. fmlookup C k = Some c \<longrightarrow>
         (\<exists>v. fmlookup N k = Some v \<and> Constraint_matches c v = Inr True))" for N
  proof -
    have case_iff: "(case x of None \<Rightarrow> False | Some v \<Rightarrow> Q v) \<longleftrightarrow> (\<exists>v. x = Some v \<and> Q v)"
      for x :: "MetadataValue option" and Q
      by (cases x) auto
    show ?thesis by (simp add: matches_def fmpred_iff case_iff)
  qed
  have absent: "fmlookup C key = Some c' \<and> fmlookup M key = None \<longrightarrow> \<not> matches C M"
    using iff [of M] by fastforce
  have dropped: "fmlookup C key = Some c' \<longrightarrow> \<not> matches C (fmdrop key M)"
    using iff [of "fmdrop key M"] by fastforce
  show ?thesis using iff [of M] absent dropped by blast
qed

theorem matches_is_conjunction_witness:
  "matches (fmupd ''lang'' (EqualTo (MetadataValue_Str ''en'')) fmempty)
     (fmupd ''lang'' (MetadataValue_Str ''en'') (fmupd ''len'' (MetadataValue_Int 5) fmempty))
   \<and> \<not> matches (fmupd ''lang'' (EqualTo (MetadataValue_Str ''en'')) fmempty)
         (fmdrop ''lang''
           (fmupd ''lang'' (MetadataValue_Str ''en'') (fmupd ''len'' (MetadataValue_Int 5) fmempty)))
   \<and> \<not> matches (fmupd ''lang'' (EqualTo (MetadataValue_Str ''en'')) fmempty)
         (fmupd ''len'' (MetadataValue_Int 5) fmempty)"
proof -
  let ?C = "fmupd ''lang'' (EqualTo (MetadataValue_Str ''en'')) fmempty"
  let ?M = "fmupd ''lang'' (MetadataValue_Str ''en'') (fmupd ''len'' (MetadataValue_Int 5) fmempty)"
  let ?N = "fmupd ''len'' (MetadataValue_Int 5) fmempty"
  have eq: "equals (MetadataValue_Str ''en'') (MetadataValue_Str ''en'')"
    by (simp add: equals_def MetadataValue_Str_def string_eq_def)
  have 1: "matches ?C ?M"
    using matches_is_conjunction [of ?C ?M "''lang''" "EqualTo (MetadataValue_Str ''en'')"] eq
    by simp
  have 2: "\<not> matches ?C (fmdrop ''lang'' ?M)"
    using matches_is_conjunction [of ?C ?M "''lang''" "EqualTo (MetadataValue_Str ''en'')"]
    by simp
  have 3: "\<not> matches ?C ?N"
    using matches_is_conjunction [of ?C ?N "''lang''" "EqualTo (MetadataValue_Str ''en'')"]
    by simp
  show ?thesis using 1 2 3 by blast
qed

subsection \<open>Building a constraint set\<close>

lemma push_back_loop_take: "push_back_loop vals count acc = acc @ take count vals"
  by (induction vals count acc rule: push_back_loop.induct) simp_all

lemma add_binary_constraints:
  "constraints (Constraints_add_binary_constraint c op key v) =
     (if op = 0 then fmupd key (EqualTo v) (constraints c)
      else if op = 1 then fmupd key (LessThan v) (constraints c)
      else if op = 2 then fmupd key (GreaterThan v) (constraints c)
      else if op = 3 then fmupd key (Substring v) (constraints c)
      else constraints c)"
  by (simp add: Constraints_add_binary_constraint_def BinaryConstraintEq_def
        BinaryConstraintLt_def BinaryConstraintGt_def BinaryConstraintSubstr_def)

lemma add_any_of_constraints:
  "0 \<le> n \<Longrightarrow>
   \<exists>c'. Constraints_add_any_of_constraint c key vals n = Inr c'
        \<and> constraints c' = fmupd key (AnyOf (take (nat n) vals)) (constraints c)"
  by (simp add: Constraints_add_any_of_constraint_def push_back_loop_take)

text \<open>
  Claim C8. Let a constraint be added for \<open>key\<close>, by
  \<open>Constraints_add_binary_constraint\<close> with an op code from 0 to 3 or by
  \<open>Constraints_add_any_of_constraint\<close>, and let a second one be added for the same
  key. The set then maps \<open>key\<close> to the second constraint alone: \<open>EqualTo\<close>, \<open>LessThan\<close>,
  \<open>GreaterThan\<close> or \<open>Substring\<close> of the new value for the op codes 0, 1, 2, 3, and
  \<open>AnyOf\<close> of the first \<open>n\<close> values for the other function. The set of keys does not
  grow, and the constraints under the other keys are as before.
\<close>
theorem last_write_wins:
  assumes first:
    "(op1 \<in> {0, 1, 2, 3} \<and> c1 = Constraints_add_binary_constraint c0 op1 key v1)
     \<or> Constraints_add_any_of_constraint c0 key vals1 n1 = Inr c1"
  shows "fmlookup (constraints c1) key \<noteq> None
    \<and> fmlookup (constraints (Constraints_add_binary_constraint c1 0 key v2)) key
        = Some (EqualTo v2)
    \<and> fmlookup (constraints (Constraints_add_binary_constraint c1 1 key v2)) key
        = Some (LessThan v2)
    \<and> fmlookup (constraints (Constraints_add_binary_constraint c1 2 key v2)) key
        = Some (GreaterThan v2)
    \<and> fmlookup (constraints (Constraints_add_binary_constraint c1 3 key v2)) key
        = Some (Substring v2)
    \<and> (op2 \<in> {0, 1, 2, 3} \<longrightarrow>
         fmdom (constraints (Constraints_add_binary_constraint c1 op2 key v2))
           = fmdom (constraints c1)
         \<and> (\<forall>k. k \<noteq> key \<longrightarrow>
               fmlookup (constraints (Constraints_add_binary_constraint c1 op2 key v2)) k
                 = fmlookup (constraints c1) k))
    \<and> (0 \<le> n2 \<longrightarrow>
         (\<exists>c2. Constraints_add_any_of_constraint c1 key vals2 n2 = Inr c2
            \<and> fmlookup (constraints c2) key = Some (AnyOf (take (nat n2) vals2))
            \<and> fmdom (constraints c2) = fmdom (constraints c1)
            \<and> (\<forall>k. k \<noteq> key \<longrightarrow> fmlookup (constraints c2) k = fmlookup (constraints c1) k)))"
proof -
  have present: "fmlookup (constraints c1) key \<noteq> None"
    using first
  proof
    assume "op1 \<in> {0, 1, 2, 3} \<and> c1 = Constraints_add_binary_constraint c0 op1 key v1"
    then show ?thesis by (auto simp: add_binary_constraints)
  next
    assume "Constraints_add_any_of_constraint c0 key vals1 n1 = Inr c1"
    then show ?thesis
      by (auto simp: Constraints_add_any_of_constraint_def split: if_splits)
  qed
  then have dom: "key |\<in>| fmdom (constraints c1)"
    by (auto intro: fmdomI)
  have binary:
    "fmlookup (constraints (Constraints_add_binary_constraint c1 0 key v2)) key
        = Some (EqualTo v2)"
    "fmlookup (constraints (Constraints_add_binary_constraint c1 1 key v2)) key
        = Some (LessThan v2)"
    "fmlookup (constraints (Constraints_add_binary_constraint c1 2 key v2)) key
        = Some (GreaterThan v2)"
    "fmlookup (constraints (Constraints_add_binary_constraint c1 3 key v2)) key
        = Some (Substring v2)"
    by (simp_all add: add_binary_constraints)
  have others: "op2 \<in> {0, 1, 2, 3} \<longrightarrow>
         fmdom (constraints (Constraints_add_binary_constraint c1 op2 key v2))
           = fmdom (constraints c1)
         \<and> (\<forall>k. k \<noteq> key \<longrightarrow>
               fmlookup (constraints (Constraints_add_binary_constraint c1 op2 key v2)) k
                 = fmlookup (constraints c1) k)"
    using dom by (auto simp: add_binary_constraints)
  have any_of: "0 \<le> n2 \<longrightarrow>
         (\<exists>c2. Constraints_add_any_of_constraint c1 key vals2 n2 = Inr c2
            \<and> fmlookup (constraints c2) key = Some (AnyOf (take (nat n2) vals2))
            \<and> fmdom (constraints c2) = fmdom (constraints c1)
            \<and> (\<forall>k. k \<noteq> key \<longrightarrow> fmlookup (constraints c2) k = fmlookup (constraints c1) k))"
  proof
    assume "0 \<le> n2"
    then obtain c2 where c2: "Constraints_add_any_of_constraint c1 key vals2 n2 = Inr c2"
      "constraints c2 = fmupd key (AnyOf (take (nat n2) vals2)) (constraints c1)"
      using add_any_of_constraints by blast
    then show "\<exists>c2. Constraints_add_any_of_constraint c1 key vals2 n2 = Inr c2
            \<and> fmlookup (constraints c2) key = Some (AnyOf (take (nat n2) vals2))
            \<and> fmdom (constraints c2) = fmdom (constraints c1)
            \<and> (\<forall>k. k \<noteq> key \<longrightarrow> fmlookup (constraints c2) k = fmlookup (constraints c1) k)"
      using dom by auto
  qed
  show ?thesis using present binary others any_of by blast
qed

theorem last_write_wins_witness:
  "fmlookup (constraints
      (Constraints_add_binary_constraint
         (Constraints_add_binary_constraint Constraints_new 0 ''k'' (MetadataValue_Int 1))
         1 ''k'' (MetadataValue_Int 2))) ''k''
     = Some (LessThan (MetadataValue_Int 2))
   \<and> (\<exists>c2. Constraints_add_any_of_constraint
         (Constraints_add_binary_constraint Constraints_new 0 ''k'' (MetadataValue_Int 1))
         ''k'' [MetadataValue_Int 2, MetadataValue_Int 3] 2 = Inr c2
        \<and> fmlookup (constraints c2) ''k''
            = Some (AnyOf [MetadataValue_Int 2, MetadataValue_Int 3]))"
proof -
  let ?c1 = "Constraints_add_binary_constraint Constraints_new 0 ''k'' (MetadataValue_Int 1)"
  have h: "((0::int) \<in> {0, 1, 2, 3} \<and> ?c1 = ?c1)
     \<or> Constraints_add_any_of_constraint Constraints_new ''k'' [] 0 = Inr ?c1"
    by simp
  note L = last_write_wins [OF h, of "MetadataValue_Int 2" 1 2
        "[MetadataValue_Int 2, MetadataValue_Int 3]"]
  have a: "fmlookup (constraints (Constraints_add_binary_constraint ?c1 1 ''k''
             (MetadataValue_Int 2))) ''k'' = Some (LessThan (MetadataValue_Int 2))"
    using L by blast
  have "(0::int) \<le> 2 \<longrightarrow>
      (\<exists>c2. Constraints_add_any_of_constraint ?c1 ''k''
               [MetadataValue_Int 2, MetadataValue_Int 3] 2 = Inr c2
        \<and> fmlookup (constraints c2) ''k''
            = Some (AnyOf (take (nat 2) [MetadataValue_Int 2, MetadataValue_Int 3])))"
    using L by blast
  then have b: "\<exists>c2. Constraints_add_any_of_constraint ?c1 ''k''
               [MetadataValue_Int 2, MetadataValue_Int 3] 2 = Inr c2
        \<and> fmlookup (constraints c2) ''k''
            = Some (AnyOf [MetadataValue_Int 2, MetadataValue_Int 3])"
    by (simp add: numeral_2_eq_2)
  show ?thesis using a b by blast
qed

subsection \<open>Documents\<close>

lemma Document_do_lengths:
  "length (chunks (Document_do doc call))
     = length (chunks doc) + (case call of Add_chunk _ \<Rightarrow> 1 | _ \<Rightarrow> 0)
   \<and> length (metadata (Document_do doc call))
     = length (metadata doc) + (case call of Add_chunk _ \<Rightarrow> 1 | _ \<Rightarrow> 0)"
  by (cases call)
     (auto simp: Document_add_chunk_def Document_set_version_def Document_add_metadata_def)

lemma Document_do_invariant:
  "length (chunks doc) = length (metadata doc) \<Longrightarrow>
   length (chunks (foldl Document_do doc calls)) = length (metadata (foldl Document_do doc calls))"
proof (induction calls arbitrary: doc)
  case Nil
  then show ?case by simp
next
  case (Cons call calls)
  have "length (chunks (Document_do doc call)) = length (metadata (Document_do doc call))"
    using Cons.prems Document_do_lengths [of doc call] by simp
  then show ?case using Cons.IH by simp
qed

text \<open>
  Claim C9. After \<open>Document_new\<close> and any sequence of \<open>Document_add_chunk\<close>,
  \<open>Document_set_version\<close> and \<open>Document_add_metadata\<close> calls, the chunks vector and
  the metadata vector have the same length. \<open>Document_add_chunk\<close> appends one chunk
  text and one empty metadata map; the other two calls leave both lengths as they are,
  also when \<open>Document_add_metadata\<close> throws.
\<close>
theorem document_arrays_are_parallel:
  "length (chunks (foldl Document_do (Document_new name ident) calls))
     = length (metadata (foldl Document_do (Document_new name ident) calls))
   \<and> length (chunks (Document_do doc call))
       = length (chunks doc) + (case call of Add_chunk _ \<Rightarrow> 1 | _ \<Rightarrow> 0)
   \<and> length (metadata (Document_do doc call))
       = length (metadata doc) + (case call of Add_chunk _ \<Rightarrow> 1 | _ \<Rightarrow> 0)
   \<and> chunks (Document_add_chunk doc chunk) = chunks doc @ [chunk]
   \<and> metadata (Document_add_chunk doc chunk) = metadata doc @ [fmempty]"
proof -
  have "length (chunks (Document_new name ident)) = length (metadata (Document_new name ident))"
    by (simp add: Document_new_def)
  then have "length (chunks (foldl Document_do (Document_new name ident) calls))
     = length (metadata (foldl Document_do (Document_new name ident) calls))"
    by (rule Document_do_invariant)
  moreover have "chunks (Document_add_chunk doc chunk) = chunks doc @ [chunk]"
    "metadata (Document_add_chunk doc chunk) = metadata doc @ [fmempty]"
    by (simp_all add: Document_add_chunk_def)
  ultimately show ?thesis using Document_do_lengths [of doc call] by blast
qed

theorem document_arrays_are_parallel_witness:
  "length (chunks (foldl Document_do (Document_new ''doc'' ''id'')
             [Add_chunk ''a'', Add_metadata 5 ''k'' (MetadataValue_Int 1), Set_version 2,
              Add_metadata 0 ''k'' (MetadataValue_Int 1), Add_chunk ''b''])) = 2
   \<and> length (metadata (foldl Document_do (Document_new ''doc'' ''id'')
             [Add_chunk ''a'', Add_metadata 5 ''k'' (MetadataValue_Int 1), Set_version 2,
              Add_metadata 0 ''k'' (MetadataValue_Int 1), Add_chunk ''b''])) = 2"
proof -
  let ?D = "foldl Document_do (Document_new ''doc'' ''id'')
             [Add_chunk ''a'', Add_metadata 5 ''k'' (MetadataValue_Int 1), Set_version 2,
              Add_metadata 0 ''k'' (MetadataValue_Int 1), Add_chunk ''b'']"
  have two: "length (chunks ?D) = 2"
    by (simp add: Document_new_def Document_add_chunk_def Document_set_version_def
          Document_add_metadata_def)
  have same: "length (chunks ?D) = length (metadata ?D)"
    using document_arrays_are_parallel [of "''doc''" "''id''"
        "[Add_chunk ''a'', Add_metadata 5 ''k'' (MetadataValue_Int 1), Set_version 2,
          Add_metadata 0 ''k'' (MetadataValue_Int 1), Add_chunk ''b'']"]
    by (rule conjunct1)
  from two same [symmetric] show ?thesis
    by (simp only: simp_thms)
qed

subsection \<open>Chunk-id ranges\<close>

lemma unat_plus_of_nat:
  "unat (a :: 64 word) + n < 2 ^ 64 \<Longrightarrow> unat (a + of_nat n) = unat a + n"
  by (simp add: unat_word_ariths unat_of_nat)

lemma length_range_ids: "length (range_ids r) = unat (end_id r) - unat (start_id r)"
  by (simp add: range_ids_def)

lemma set_range_ids: "set (range_ids r) = {x. start_id r \<le> x \<and> x < end_id r}"
proof (rule set_eqI)
  fix x :: "64 word"
  have bound: "unat (end_id r) < 2 ^ 64"
    using unsigned_less [of "end_id r", where 'a = nat] by simp
  show "x \<in> set (range_ids r) \<longleftrightarrow> x \<in> {x. start_id r \<le> x \<and> x < end_id r}"
  proof
    assume "x \<in> set (range_ids r)"
    then obtain k where k: "x = of_nat k" "unat (start_id r) \<le> k" "k < unat (end_id r)"
      by (auto simp: range_ids_def)
    then have "unat x = k"
      using bound by (simp add: unat_of_nat)
    with k show "x \<in> {x. start_id r \<le> x \<and> x < end_id r}"
      by (simp add: word_le_nat_alt word_less_nat_alt)
  next
    assume "x \<in> {x. start_id r \<le> x \<and> x < end_id r}"
    then have "unat (start_id r) \<le> unat x" "unat x < unat (end_id r)"
      by (simp_all add: word_le_nat_alt word_less_nat_alt)
    then show "x \<in> set (range_ids r)"
      unfolding range_ids_def by (auto intro!: image_eqI [where x = "unat x"])
  qed
qed

lemma Store_insert_Inr:
  assumes "Store_insert st texts maps name d vo = Inr (st', r)"
  shows "start_id r = next_id st" and "end_id r = next_id st'"
    and "unat (next_id st') = unat (next_id st) + length texts"
    and "length texts = length maps"
    and "live st' = live st @ new_chunks (next_id st) texts maps name d (insert_doc_version r)"
proof -
  have ok: "length texts = length maps" "unat (next_id st) + length texts < 2 ^ 64"
    using assms by (auto simp: Store_insert_def split: if_splits)
  then have st': "next_id st' = next_id st + of_nat (length texts)"
    and r: "start_id r = next_id st" "end_id r = next_id st + of_nat (length texts)"
    and l: "live st' = live st @ new_chunks (next_id st) texts maps name d (insert_doc_version r)"
    using assms by (auto simp: Store_insert_def Let_def split: if_splits)
  show "start_id r = next_id st" by (rule r(1))
  show "end_id r = next_id st'" using r(2) st' by simp
  show "unat (next_id st') = unat (next_id st) + length texts"
    using st' unat_plus_of_nat [OF ok(2)] by simp
  show "length texts = length maps" by (rule ok(1))
  show "live st' = live st @ new_chunks (next_id st) texts maps name d (insert_doc_version r)"
    by (rule l)
qed

lemma next_id_delete [simp]:
  "next_id (Store_deleteDocVersion st d v) = next_id st"
  "next_id (Store_deleteDoc st d keep) = next_id st"
  "next_id (Store_prune st) = next_id st"
  by (simp_all add: Store_deleteDocVersion_def Store_deleteDoc_def Store_prune_def)

lemma Store_run_bounds:
  "(n, r) \<in> set (Store_run st calls) \<Longrightarrow>
   unat (next_id st) \<le> unat (start_id r) \<and> unat (end_id r) = unat (start_id r) + n"
proof (induction st calls rule: Store_run.induct)
  case (1 st)
  then show ?case by simp
next
  case (2 st texts maps name d vo calls)
  show ?case
  proof (cases "Store_insert st texts maps name d vo")
    case (Inl e)
    with 2 show ?thesis by simp
  next
    case (Inr p)
    obtain st' r' where p: "p = (st', r')" by (cases p)
    note ins = Store_insert_Inr [OF Inr [unfolded p]]
    from "2.prems" Inr p
    consider "(n, r) = (length texts, r')" | "(n, r) \<in> set (Store_run st' calls)"
      by auto
    then show ?thesis
    proof cases
      case 1
      then show ?thesis using ins by simp
    next
      case 2
      then have "unat (next_id st') \<le> unat (start_id r) \<and> unat (end_id r) = unat (start_id r) + n"
        using "2.IH"(2) [OF Inr p [symmetric]] by simp
      then show ?thesis using ins(3) by simp
    qed
  qed
qed simp_all

lemma Store_run_ordered:
  "sorted_wrt (\<lambda>a b. unat (end_id (snd a)) \<le> unat (start_id (snd b))) (Store_run st calls)"
proof (induction st calls rule: Store_run.induct)
  case (1 st)
  then show ?case by simp
next
  case (2 st texts maps name d vo calls)
  show ?case
  proof (cases "Store_insert st texts maps name d vo")
    case (Inl e)
    with 2 show ?thesis by simp
  next
    case (Inr p)
    obtain st' r' where p: "p = (st', r')" by (cases p)
    note ins = Store_insert_Inr [OF Inr [unfolded p]]
    have "unat (end_id r') \<le> unat (start_id (snd b))" if "b \<in> set (Store_run st' calls)" for b
      using Store_run_bounds [of "fst b" "snd b" st' calls] that ins(2) by simp
    then show ?thesis
      using "2.IH"(2) [OF Inr p [symmetric]] Inr p by simp
  qed
qed simp_all

lemma chunk_ids_new_chunks:
  "length texts = length maps \<Longrightarrow>
   map chunk_id (new_chunks start texts maps name d v)
     = map (\<lambda>i. start + of_nat i) [0 ..< length texts]"
  by (auto simp: new_chunks_def intro!: nth_equalityI)

lemma range_ids_from_start:
  assumes "unat (start_id r) + n < 2 ^ 64" and "end_id r = start_id r + of_nat n"
  shows "range_ids r = map (\<lambda>i. start_id r + of_nat i) [0 ..< n]"
proof -
  have e: "unat (end_id r) = unat (start_id r) + n"
    using assms unat_plus_of_nat by simp
  show ?thesis
    unfolding range_ids_def e
    by (rule nth_equalityI) (simp_all add: add.commute)
qed


text \<open>
  Claim C4. Over any sequence of inserts and deletions on a new store, every insert
  that succeeds returns a range \<open>[start_id, end_id)\<close> with as many ids as it was given
  chunks, the ranges of two different inserts share no id, and the chunks just inserted
  carry the ids of the range in chunk order. Deletions and pruning do not touch the
  next id, so the ids of deleted chunks are not handed out again. An insert with as
  many metadata maps as chunks succeeds while the 64-bit id space has room.
\<close>
theorem insert_ranges_never_overlap:
  "(\<forall>(n, r) \<in> set (Store_run Store_new calls).
      length (range_ids r) = n
      \<and> set (range_ids r) = {x. start_id r \<le> x \<and> x < end_id r})
   \<and> (\<forall>i j. i < j \<and> j < length (Store_run Store_new calls) \<longrightarrow>
         set (range_ids (snd (Store_run Store_new calls ! i)))
           \<inter> set (range_ids (snd (Store_run Store_new calls ! j))) = {})
   \<and> (Store_insert st texts maps name d vo = Inr (st', r) \<longrightarrow>
         length (range_ids r) = length texts
         \<and> map chunk_id (drop (length (live st)) (live st')) = range_ids r)
   \<and> (length texts = length maps \<and> unat (next_id st) + length texts < 2 ^ 64 \<longrightarrow>
         (\<exists>st' r. Store_insert st texts maps name d vo = Inr (st', r)))"
proof -
  let ?rs = "Store_run Store_new calls"
  have each: "\<forall>(n, r) \<in> set ?rs.
      length (range_ids r) = n
      \<and> set (range_ids r) = {x. start_id r \<le> x \<and> x < end_id r}"
    using Store_run_bounds [of _ _ Store_new calls]
    by (auto simp: length_range_ids set_range_ids)
  have apart: "\<forall>i j. i < j \<and> j < length ?rs \<longrightarrow>
         set (range_ids (snd (?rs ! i))) \<inter> set (range_ids (snd (?rs ! j))) = {}"
  proof (intro allI impI)
    fix i j
    assume ij: "i < j \<and> j < length ?rs"
    then have "unat (end_id (snd (?rs ! i))) \<le> unat (start_id (snd (?rs ! j)))"
      using Store_run_ordered [of Store_new calls]
      by (simp add: sorted_wrt_iff_nth_less)
    then have "end_id (snd (?rs ! i)) \<le> start_id (snd (?rs ! j))"
      by (simp add: word_le_nat_alt)
    then show "set (range_ids (snd (?rs ! i))) \<inter> set (range_ids (snd (?rs ! j))) = {}"
      by (auto simp: set_range_ids)
  qed
  have step: "Store_insert st texts maps name d vo = Inr (st', r) \<longrightarrow>
         length (range_ids r) = length texts
         \<and> map chunk_id (drop (length (live st)) (live st')) = range_ids r"
  proof
    assume a: "Store_insert st texts maps name d vo = Inr (st', r)"
    note ins = Store_insert_Inr [OF a]
    have room: "unat (start_id r) + length texts < 2 ^ 64"
      using ins(1,3) unsigned_less [of "next_id st'", where 'a = nat] by simp
    have stop: "end_id r = start_id r + of_nat (length texts)"
      using a by (auto simp: Store_insert_def Let_def split: if_splits)
    have "length (range_ids r) = length texts"
      using ins by (simp add: length_range_ids)
    moreover have "map chunk_id (drop (length (live st)) (live st')) = range_ids r"
      using ins(1,4,5) range_ids_from_start [OF room stop]
      by (simp add: chunk_ids_new_chunks)
    ultimately show "length (range_ids r) = length texts
         \<and> map chunk_id (drop (length (live st)) (live st')) = range_ids r"
      by simp
  qed
  have succeeds: "length texts = length maps \<and> unat (next_id st) + length texts < 2 ^ 64 \<longrightarrow>
         (\<exists>st' r. Store_insert st texts maps name d vo = Inr (st', r))"
    by (simp add: Store_insert_def Let_def)
  show ?thesis using each apart step succeeds by blast
qed

theorem insert_ranges_never_overlap_witness:
  "Store_run Store_new
     [Insert [''a'', ''b'', ''c''] [fmempty, fmempty, fmempty] ''doc'' ''d1'' None,
      Insert [''x'', ''y''] [fmempty, fmempty] ''doc'' ''d1'' None,
      DeleteDocVersion ''d1'' 1,
      Insert [''z''] [fmempty] ''doc'' ''d1'' None]
   = [(3, \<lparr>insert_doc_id = ''d1'', insert_doc_version = 1, start_id = 0, end_id = 3\<rparr>),
      (2, \<lparr>insert_doc_id = ''d1'', insert_doc_version = 2, start_id = 3, end_id = 5\<rparr>),
      (1, \<lparr>insert_doc_id = ''d1'', insert_doc_version = 3, start_id = 5, end_id = 6\<rparr>)]
   \<and> set (range_ids \<lparr>insert_doc_id = ''d1'', insert_doc_version = 1, start_id = 0, end_id = 3\<rparr>)
       \<inter> set (range_ids \<lparr>insert_doc_id = ''d1'', insert_doc_version = 3, start_id = 5, end_id = 6\<rparr>)
       = {}
   \<and> length (range_ids \<lparr>insert_doc_id = ''d1'', insert_doc_version = 2, start_id = 3, end_id = 5\<rparr>)
       = 2"
proof -
  let ?calls = "[Insert [''a'', ''b'', ''c''] [fmempty, fmempty, fmempty] ''doc'' ''d1'' None,
      Insert [''x'', ''y''] [fmempty, fmempty] ''doc'' ''d1'' None,
      DeleteDocVersion ''d1'' 1,
      Insert [''z''] [fmempty] ''doc'' ''d1'' None]"
  let ?r1 = "\<lparr>insert_doc_id = ''d1'', insert_doc_version = 1, start_id = 0, end_id = 3\<rparr>"
  let ?r2 = "\<lparr>insert_doc_id = ''d1'', insert_doc_version = 2, start_id = 3, end_id = 5\<rparr>"
  let ?r3 = "\<lparr>insert_doc_id = ''d1'', insert_doc_version = 3, start_id = 5, end_id = 6\<rparr>"
  have run: "Store_run Store_new ?calls = [(3, ?r1), (2, ?r2), (1, ?r3)]"
    by (simp add: Store_new_def Store_insert_def Let_def next_version_def versions_of_def
          new_chunks_def Store_deleteDocVersion_def upt_rec)
  note T = insert_ranges_never_overlap [of ?calls, unfolded run]
  have "\<forall>i j. i < j \<and> j < length [(3::nat, ?r1), (2, ?r2), (1, ?r3)] \<longrightarrow>
         set (range_ids (snd ([(3::nat, ?r1), (2, ?r2), (1, ?r3)] ! i)))
           \<inter> set (range_ids (snd ([(3::nat, ?r1), (2, ?r2), (1, ?r3)] ! j))) = {}"
    using T by blast
  from this [rule_format, of 0 2]
  have apart: "set (range_ids ?r1) \<inter> set (range_ids ?r3) = {}"
    by simp
  have "\<forall>(n, r) \<in> set [(3::nat, ?r1), (2, ?r2), (1, ?r3)]. length (range_ids r) = n"
    using T by blast
  then have len: "length (range_ids ?r2) = 2"
    by simp
  show ?thesis using run apart len by blast
qed

end
